theory Spec2Isabelle
  imports Complex_Main
begin

section \<open>State of the infoscreen script\<close>

text \<open>
  The script \<^verbatim>\<open>infoscreen.py\<close> keeps its state in four module-level variables. Clock
  readings (\<^verbatim>\<open>time.time()\<close>, seconds since the epoch) are taken as real numbers; every
  call of \<^verbatim>\<open>time.time()\<close> in the source is a separate reading and is a separate
  argument in the model.
\<close>

record state =
  LED_state :: bool
  disp_timer :: real
  menu_state :: int
  last_second :: int

definition BTN_PIN :: nat where
  "BTN_PIN = 27"

definition LED_PIN :: nat where
  "LED_PIN = 22"

definition DISP_TIMEOUT :: real where
  "DISP_TIMEOUT = 15"

text \<open>
  The values the module-level assignments give: \<^verbatim>\<open>LED_state = False\<close>,
  \<^verbatim>\<open>disp_timer = 0\<close>, \<^verbatim>\<open>menu_state = 0\<close> and, after the banner,
  \<^verbatim>\<open>last_second = -1\<close>.
\<close>

definition init_state :: state where
  "init_state = \<lparr>LED_state = False, disp_timer = 0, menu_state = 0, last_second = - 1\<rparr>"

text \<open>Python's \<^verbatim>\<open>int(x)\<close> on a float drops the fractional part (rounds towards zero).\<close>

definition py_int :: "real \<Rightarrow> int" where
  "py_int x = (if 0 \<le> x then \<lfloor>x\<rfloor> else \<lceil>x\<rceil>)"

section \<open>The button handler\<close>

text \<open>
  \<^verbatim>\<open>btn_press\<close> reads the clock twice: \<open>t_check\<close> in the timeout test and
  \<open>t_store\<close> in the final assignment to \<^verbatim>\<open>disp_timer\<close>.
\<close>

definition btn_press :: "real \<Rightarrow> real \<Rightarrow> state \<Rightarrow> state" where
  "btn_press t_check t_store s =
     (let s1 = (if t_check - disp_timer s \<ge> DISP_TIMEOUT
                then s\<lparr>menu_state := 0\<rparr>
                else (let s' = s\<lparr>menu_state := menu_state s + 1\<rparr>
                      in if menu_state s' = 3 then s'\<lparr>menu_state := 0\<rparr> else s'))
      in s1\<lparr>disp_timer := t_store\<rparr>)"

text \<open>A sequence of presses, each with its two clock readings, handled in order.\<close>

fun run_presses :: "(real \<times> real) list \<Rightarrow> state \<Rightarrow> state" where
  "run_presses [] s = s"
| "run_presses ((t_check, t_store) # ps) s = run_presses ps (btn_press t_check t_store s)"

section \<open>Calls to the outside world\<close>

text \<open>
  The script talks to the GPIO chip, the display and the host's telemetry commands. A run
  of a piece of the script is the list of calls it attempted, in order, and either the
  exception that propagated out of it or its result. Which calls raise is an input: the
  predicate \<open>r\<close> says, for each call, whether it raises when attempted.
\<close>

datatype query = Hostname | IPAddress | CpuPercent | VirtualMemory | Uptime | LoadAvg | CpuTemp

datatype screen = Banner | InfoScreen | Page1 | Page2

datatype call =
    SetLineValue nat bool
  | DispShow
  | DispClear
  | DispHide
  | Canvas screen
  | Query query
  | Sleep real

datatype exn = Raised call

type_synonym 'a run = "call list \<times> (exn + 'a)"

definition ret :: "'a \<Rightarrow> 'a run" where
  "ret a = ([], Inr a)"

definition call_dev :: "(call \<Rightarrow> bool) \<Rightarrow> call \<Rightarrow> unit run" where
  "call_dev r c = ([c], if r c then Inl (Raised c) else Inr ())"

definition sleep :: "real \<Rightarrow> unit run" where
  "sleep d = ([Sleep d], Inr ())"

text \<open>Sequencing: an exception in the first part skips the rest.\<close>

definition then_run :: "'a run \<Rightarrow> ('a \<Rightarrow> 'b run) \<Rightarrow> 'b run" where
  "then_run m f =
     (case m of
        (cs, Inl x) \<Rightarrow> (cs, Inl x)
      | (cs, Inr a) \<Rightarrow> (case f a of (cs', res) \<Rightarrow> (cs @ cs', res)))"

text \<open>\<^verbatim>\<open>try: ... except: pass\<close>: whatever is raised inside is dropped.\<close>

definition try_pass :: "unit run \<Rightarrow> unit run" where
  "try_pass m = (case m of (cs, Inl x) \<Rightarrow> (cs, Inr ()) | (cs, Inr a) \<Rightarrow> (cs, Inr ()))"

definition no_raise :: "call \<Rightarrow> bool" where
  "no_raise c = False"

section \<open>Startup\<close>

text \<open>
  Lines 168 to 176: clear the display, draw the banner, sleep three seconds, clear again.
  None of these calls is inside a \<^verbatim>\<open>try\<close>. The variables then have their initial
  values.
\<close>

definition startup :: "(call \<Rightarrow> bool) \<Rightarrow> state run" where
  "startup r =
     then_run (call_dev r DispClear) (\<lambda>_.
     then_run (call_dev r (Canvas Banner)) (\<lambda>_.
     then_run (sleep 3) (\<lambda>_.
     then_run (call_dev r DispClear) (\<lambda>_.
     ret init_state))))"

section \<open>The signal watcher\<close>

datatype edge = RISING_EDGE | FALLING_EDGE

datatype edge_detection = NONE | RISING | FALLING | BOTH

datatype line_bias = AS_IS | PULL_UP | PULL_DOWN | DISABLED

record edge_event =
  line_offset :: nat
  event_type :: edge
  line_seqno :: nat

record line_settings =
  edge_detection :: edge_detection
  bias :: line_bias
  debounce_period_ms :: nat

text \<open>The settings \<^verbatim>\<open>async_watch_line_value\<close> requests its line with.\<close>

definition watch_settings :: line_settings where
  "watch_settings = \<lparr>edge_detection = BOTH, bias = PULL_UP, debounce_period_ms = 12\<rparr>"

text \<open>
  The inner loop over the events read from the request (lines 135 to 138). Each event
  comes with the two clock readings \<^verbatim>\<open>btn_press\<close> would take if called for it. The
  result is the list of events for which \<^verbatim>\<open>btn_press\<close> was called, and the state.
\<close>

fun handle_events :: "(edge_event \<times> real \<times> real) list \<Rightarrow> state \<Rightarrow> edge_event list \<times> state" where
  "handle_events [] s = ([], s)"
| "handle_events ((ev, t_check, t_store) # rest) s =
     (if line_offset ev = BTN_PIN \<and> event_type ev = FALLING_EDGE
      then (case handle_events rest (btn_press t_check t_store s) of
              (called, s') \<Rightarrow> (ev # called, s'))
      else handle_events rest s)"

text \<open>
  One result of \<^verbatim>\<open>poll.poll()\<close> is a list of ready descriptors: the cancellation
  descriptor, or the request's descriptor with the events then read from it. The watcher
  returns at the cancellation descriptor; at the end of the list it polls again. A finite
  list of poll results is a finite part of the watcher's run: the first component of the
  result says whether the watcher has returned.
\<close>

datatype ready = DoneFd | RequestFd "(edge_event \<times> real \<times> real) list"

fun poll_batch :: "ready list \<Rightarrow> state \<Rightarrow> bool \<times> edge_event list \<times> state" where
  "poll_batch [] s = (False, [], s)"
| "poll_batch (DoneFd # fds) s = (True, [], s)"
| "poll_batch (RequestFd evs # fds) s =
     (case handle_events evs s of
        (called, s1) \<Rightarrow>
          (case poll_batch fds s1 of (returned, called', s2) \<Rightarrow> (returned, called @ called', s2)))"

fun async_watch_line_value :: "ready list list \<Rightarrow> state \<Rightarrow> bool \<times> edge_event list \<times> state" where
  "async_watch_line_value [] s = (False, [], s)"
| "async_watch_line_value (b # bs) s =
     (case poll_batch b s of
        (returned, called, s1) \<Rightarrow>
          if returned then (True, called, s1)
          else (case async_watch_line_value bs s1 of
                  (returned', called', s2) \<Rightarrow> (returned', called @ called', s2)))"

text \<open>
  The events the watcher reads: in one poll result, those of the request's descriptor as
  far as the cancellation descriptor; over the poll results, as far as the first that
  holds the cancellation descriptor.
\<close>

fun batch_events :: "ready list \<Rightarrow> (edge_event \<times> real \<times> real) list" where
  "batch_events [] = []"
| "batch_events (DoneFd # fds) = []"
| "batch_events (RequestFd evs # fds) = evs @ batch_events fds"

fun events_read :: "ready list list \<Rightarrow> (edge_event \<times> real \<times> real) list" where
  "events_read [] = []"
| "events_read (b # bs) = batch_events b @ (if DoneFd \<in> set b then [] else events_read bs)"

section \<open>One iteration of the main loop\<close>

text \<open>
  What one iteration of the main loop meets: its three clock readings (line 197, line 203
  and line 209), which calls raise, and the button presses the watcher handled since the
  previous iteration. The presses are applied before the iteration: the model takes an
  iteration's statements as not interleaved with the watcher thread.
\<close>

record env =
  t_led :: real
  t_sec :: real
  t_act :: real
  raises :: "call \<Rightarrow> bool"
  presses :: "(real \<times> real) list"

text \<open>
  Lines 197 to 199. \<^verbatim>\<open>LED_state\<close> is a \<^verbatim>\<open>bool\<close> compared with an \<^verbatim>\<open>int\<close>:
  \<^verbatim>\<open>False == 0\<close> and \<^verbatim>\<open>True == 1\<close>. The variable is flipped before
  \<^verbatim>\<open>set_line_value\<close> is called; when that call raises, the exception ends the main
  loop, the only reader of the variable.
\<close>

definition led_step :: "(call \<Rightarrow> bool) \<Rightarrow> real \<Rightarrow> state \<Rightarrow> state run" where
  "led_step r t s =
     (if (if LED_state s then 1 else 0) \<noteq> py_int t mod 2
      then (let s' = s\<lparr>LED_state := \<not> LED_state s\<rparr>
            in then_run (call_dev r (SetLineValue LED_PIN (LED_state s'))) (\<lambda>_. ret s'))
      else ret s)"

text \<open>The telemetry of a screen is queried before its \<^verbatim>\<open>try\<close> block is entered.\<close>

fun queries :: "(call \<Rightarrow> bool) \<Rightarrow> query list \<Rightarrow> unit run" where
  "queries r [] = ret ()"
| "queries r (q # qs) = then_run (call_dev r (Query q)) (\<lambda>_. queries r qs)"

definition render_info :: "(call \<Rightarrow> bool) \<Rightarrow> unit run" where
  "render_info r =
     then_run (queries r [Hostname, IPAddress, CpuPercent, VirtualMemory]) (\<lambda>_.
     try_pass (call_dev r (Canvas InfoScreen)))"

definition render_page1 :: "(call \<Rightarrow> bool) \<Rightarrow> unit run" where
  "render_page1 r =
     then_run (queries r [Uptime, LoadAvg, CpuTemp]) (\<lambda>_.
     try_pass (call_dev r (Canvas Page1)))"

definition render_page2 :: "(call \<Rightarrow> bool) \<Rightarrow> unit run" where
  "render_page2 r = try_pass (call_dev r (Canvas Page2))"

text \<open>Lines 209 to 266: the body of \<^verbatim>\<open>if this_second != last_second\<close> after the assignment.\<close>

definition display_step :: "env \<Rightarrow> state \<Rightarrow> unit run" where
  "display_step e s =
     (if t_act e - disp_timer s < DISP_TIMEOUT
      then
        then_run (try_pass (call_dev (raises e) DispShow)) (\<lambda>_.
        then_run (if menu_state s = 0 then render_info (raises e) else ret ()) (\<lambda>_.
        then_run (if menu_state s = 1 then render_page1 (raises e) else ret ()) (\<lambda>_.
                 (if menu_state s = 2 then render_page2 (raises e) else ret ()))))
      else
        try_pass (then_run (call_dev (raises e) DispClear) (\<lambda>_.
                  call_dev (raises e) DispHide)))"

text \<open>Lines 197 to 268: the body of \<^verbatim>\<open>while True\<close>.\<close>

definition main_iter :: "env \<Rightarrow> state \<Rightarrow> state run" where
  "main_iter e s =
     then_run (led_step (raises e) (t_led e) s) (\<lambda>s1.
     then_run (let this_second = py_int (t_sec e - disp_timer s1)
               in if this_second \<noteq> last_second s1
                  then (let s2 = s1\<lparr>last_second := this_second\<rparr>
                        in then_run (display_step e s2) (\<lambda>_. ret s2))
                  else ret s1) (\<lambda>s3.
     then_run (sleep (1 / 5)) (\<lambda>_.
     ret s3)))"

section \<open>The main loop and the script\<close>

text \<open>
  \<^verbatim>\<open>while True\<close>: iteration \<open>i\<close> meets \<open>envs i\<close>. The loop returns \<open>Some (Inl x)\<close> when
  exception \<open>x\<close> propagates out of an iteration, \<open>Some (Inr s)\<close> when the loop condition is
  found false in state \<open>s\<close>, and \<open>None\<close> when it runs for ever.
\<close>

partial_function (option) main_loop :: "(nat \<Rightarrow> env) \<Rightarrow> nat \<Rightarrow> state \<Rightarrow> (exn + state) option" where
  "main_loop envs i s =
     (if True
      then (case snd (main_iter (envs i) (run_presses (presses (envs i)) s)) of
              Inl x \<Rightarrow> Some (Inl x)
            | Inr s' \<Rightarrow> main_loop envs (Suc i) s')
      else Some (Inr s))"

text \<open>The first \<open>n\<close> iterations from iteration \<open>i\<close> on.\<close>

fun run_iters :: "(nat \<Rightarrow> env) \<Rightarrow> nat \<Rightarrow> nat \<Rightarrow> state \<Rightarrow> exn + state" where
  "run_iters envs i 0 s = Inr s"
| "run_iters envs i (Suc n) s =
     (case snd (main_iter (envs i) (run_presses (presses (envs i)) s)) of
        Inl x \<Rightarrow> Inl x
      | Inr s' \<Rightarrow> run_iters envs (Suc i) n s')"

text \<open>
  The whole script: startup, the main loop, and the statement after the loop
  (\<^verbatim>\<open>GPIO.cleanup()\<close>, line 270), which is reached when the loop is left normally.
\<close>

datatype ending = Died exn | ReachedCleanup

definition script :: "(call \<Rightarrow> bool) \<Rightarrow> (nat \<Rightarrow> env) \<Rightarrow> ending option" where
  "script r envs =
     (case snd (startup r) of
        Inl x \<Rightarrow> Some (Died x)
      | Inr s0 \<Rightarrow>
          (case main_loop envs 0 s0 of
             None \<Rightarrow> None
           | Some (Inl x) \<Rightarrow> Some (Died x)
           | Some (Inr s) \<Rightarrow> Some ReachedCleanup))"

section \<open>The LED over a run of iterations\<close>

text \<open>
  The clock readings of line 197 in successive iterations, with no call raising: the
  readings at which \<^verbatim>\<open>LED_state\<close> flipped.
\<close>

fun led_flip_times :: "real list \<Rightarrow> state \<Rightarrow> real list" where
  "led_flip_times [] s = []"
| "led_flip_times (t # ts) s =
     (case snd (led_step no_raise t s) of
        Inl x \<Rightarrow> []
      | Inr s' \<Rightarrow> (if LED_state s' \<noteq> LED_state s then [t] else []) @ led_flip_times ts s')"

text \<open>The number of flips at readings in the two-second window from \<open>T\<close>.\<close>

definition flips_in_window :: "real \<Rightarrow> real list \<Rightarrow> state \<Rightarrow> nat" where
  "flips_in_window T ts s = length (filter (\<lambda>t. T \<le> t \<and> t < T + 2) (led_flip_times ts s))"

text \<open>
  The pace of a run of iterations: between the reading of line 197 in one iteration and
  that in the next lies the \<^verbatim>\<open>time.sleep(0.2)\<close> of line 268, the \<open>Sleep (1 / 5)\<close> that
  \<open>main_iter\<close> ends with, and the time the body takes. Each reading is at least a
  fifth of a second after the one before, and less than a second after it.
\<close>

fun paced :: "real \<Rightarrow> real list \<Rightarrow> bool" where
  "paced t [] = True"
| "paced t (u # us) = (1 / 5 \<le> u - t \<and> u - t < 1 \<and> paced u us)"

text \<open>The calls of a run that go to the display.\<close>

fun is_display_call :: "call \<Rightarrow> bool" where
  "is_display_call DispShow = True"
| "is_display_call DispClear = True"
| "is_display_call DispHide = True"
| "is_display_call (Canvas scr) = True"
| "is_display_call c = False"

text \<open>The telemetry queried, in order, for the screen of a menu state.\<close>

definition screen_queries :: "int \<Rightarrow> query list" where
  "screen_queries m =
     (if m = 0 then [Hostname, IPAddress, CpuPercent, VirtualMemory]
      else if m = 1 then [Uptime, LoadAvg, CpuTemp]
      else [])"

text \<open>A single call failing: only call \<open>c\<close> raises.\<close>

definition only_raises :: "call \<Rightarrow> call \<Rightarrow> bool" where
  "only_raises c c' = (c' = c)"

section \<open>Properties of the button handler\<close>

lemma btn_press_menu_range:
  "menu_state s \<in> {0, 1, 2} \<Longrightarrow> menu_state (btn_press t_check t_store s) \<in> {0, 1, 2}"
  by (auto simp: btn_press_def Let_def)

lemma run_presses_menu_range:
  "menu_state s \<in> {0, 1, 2} \<Longrightarrow> menu_state (run_presses ps s) \<in> {0, 1, 2}"
proof (induction ps arbitrary: s)
  case Nil
  then show ?case by simp
next
  case (Cons p ps)
  obtain a b where p: "p = (a, b)" by (cases p)
  from Cons.prems have "menu_state (btn_press a b s) \<in> {0, 1, 2}"
    by (rule btn_press_menu_range)
  then have "menu_state (run_presses ps (btn_press a b s)) \<in> {0, 1, 2}"
    by (rule Cons.IH)
  then show ?case unfolding p by simp
qed

lemma run_presses_append:
  "run_presses (ps @ qs) s = run_presses qs (run_presses ps s)"
  by (induction ps arbitrary: s) auto

text \<open>
  Claim C1. A button press whose timeout test reads the clock at \<open>t_check\<close> and whose
  final assignment reads it at \<open>t_store\<close> (the claim's single instant \<open>now\<close> is the case
  \<open>t_check = t_store = now\<close>): if \<open>t_check - disp_timer\<close> is at least 15 seconds the menu
  state becomes 0 whatever it was; otherwise, the menu state being one of 0, 1, 2 as it
  is in every run of the script, it becomes \<open>(menu_state + 1) mod 3\<close>; in both branches
  \<open>disp_timer\<close> becomes \<open>t_store\<close> and nothing else changes, so a press immediately
  repeated resets the timer again and obeys the same rule.
\<close>

theorem btn_press_spec:
  assumes "menu_state s \<in> {0, 1, 2}"
  shows "btn_press t_check t_store s =
           s\<lparr>menu_state := (if t_check - disp_timer s \<ge> 15 then 0
                             else (menu_state s + 1) mod 3),
             disp_timer := t_store\<rparr>
         \<and> (t_check - disp_timer s \<ge> 15 \<longrightarrow>
              menu_state (btn_press t_check t_store s) = 0)
         \<and> disp_timer (btn_press t_check t_store s) = t_store
         \<and> disp_timer (btn_press u_check u_store (btn_press t_check t_store s)) = u_store
         \<and> menu_state (btn_press u_check u_store (btn_press t_check t_store s)) =
             (if u_check - t_store \<ge> 15 then 0
              else (menu_state (btn_press t_check t_store s) + 1) mod 3)"
  using assms by (auto simp: btn_press_def Let_def DISP_TIMEOUT_def)

theorem btn_press_spec_witness:
  "menu_state init_state \<in> {0, 1, 2}
   \<and> btn_press 1000 1000 init_state = init_state\<lparr>menu_state := 0, disp_timer := 1000\<rparr>
   \<and> btn_press 1005 1005 (btn_press 1000 1000 init_state) =
       init_state\<lparr>menu_state := 1, disp_timer := 1005\<rparr>"
proof -
  have h0: "menu_state init_state \<in> {0, 1, 2}"
    by (simp add: init_state_def)
  have h1: "menu_state (init_state\<lparr>menu_state := 0, disp_timer := 1000\<rparr>) \<in> {0, 1, 2}"
    by simp
  have a: "btn_press 1000 1000 init_state = init_state\<lparr>menu_state := 0, disp_timer := 1000\<rparr>"
    using btn_press_spec [OF h0, of 1000 1000] by (simp add: init_state_def)
  have b: "btn_press 1005 1005 (init_state\<lparr>menu_state := 0, disp_timer := 1000\<rparr>) =
             init_state\<lparr>menu_state := 1, disp_timer := 1005\<rparr>"
    using btn_press_spec [OF h1, of 1005 1005] by (simp add: init_state_def)
  show ?thesis using h0 a b by simp
qed

text \<open>
  Claim C2. Starting from the initial state (menu state 0), after any sequence of button
  presses the menu state is 0, 1 or 2; a press within the timeout on menu state 2 wraps
  to 0; and a press whose timeout test finds at least 15 seconds elapsed gives menu state
  0 whatever the menu state was before.
\<close>

theorem menu_state_invariant:
  "menu_state (run_presses ps init_state) \<in> {0, 1, 2}
   \<and> (menu_state s = 2 \<and> t_check - disp_timer s < 15 \<longrightarrow>
        menu_state (btn_press t_check t_store s) = 0)
   \<and> (t_check - disp_timer s \<ge> 15 \<longrightarrow> menu_state (btn_press t_check t_store s) = 0)"
proof -
  have "menu_state init_state \<in> {0, 1, 2}"
    by (simp add: init_state_def)
  then have "menu_state (run_presses ps init_state) \<in> {0, 1, 2}"
    by (rule run_presses_menu_range)
  moreover have "menu_state s = 2 \<and> t_check - disp_timer s < 15 \<longrightarrow>
      menu_state (btn_press t_check t_store s) = 0"
    by (simp add: btn_press_def Let_def DISP_TIMEOUT_def)
  moreover have "t_check - disp_timer s \<ge> 15 \<longrightarrow> menu_state (btn_press t_check t_store s) = 0"
    by (simp add: btn_press_def Let_def DISP_TIMEOUT_def)
  ultimately show ?thesis by blast
qed

theorem menu_state_invariant_witness:
  "menu_state (run_presses [(5, 5), (8, 8), (10, 10), (25, 25)] init_state) \<in> {0, 1, 2}
   \<and> menu_state (btn_press 10 10 (run_presses [(5, 5), (8, 8)] init_state)) = 0
   \<and> menu_state (btn_press 25 25 (run_presses [(5, 5), (8, 8)] init_state)) = 0"
proof -
  have s: "run_presses [(5, 5), (8, 8)] init_state =
      \<lparr>LED_state = False, disp_timer = 8, menu_state = 2, last_second = - 1\<rparr>"
    by (simp add: init_state_def btn_press_def Let_def DISP_TIMEOUT_def)
  show ?thesis
    using menu_state_invariant [of "[(5, 5), (8, 8), (10, 10), (25, 25)]"
        "run_presses [(5, 5), (8, 8)] init_state" 10 10]
      menu_state_invariant [of "[]" "run_presses [(5, 5), (8, 8)] init_state" 25 25]
    by (simp only: s) simp
qed

section \<open>Properties of runs\<close>

lemma then_run_simps:
  "then_run (cs, Inl x) f = (cs, Inl x)"
  "then_run (cs, Inr a) f = (cs @ fst (f a), snd (f a))"
  by (simp_all add: then_run_def split: prod.splits)

lemma try_pass_simps:
  "try_pass (cs, res) = (cs, Inr ())"
  by (cases res) (simp_all add: try_pass_def)

lemma py_int_nonneg: "0 \<le> x \<Longrightarrow> py_int x = \<lfloor>x\<rfloor>"
  by (simp add: py_int_def)

lemma led_step_eq:
  "led_step r t s =
     (if (if LED_state s then 1 else 0) \<noteq> py_int t mod 2
      then ([SetLineValue LED_PIN (\<not> LED_state s)],
            if r (SetLineValue LED_PIN (\<not> LED_state s))
            then Inl (Raised (SetLineValue LED_PIN (\<not> LED_state s)))
            else Inr (s\<lparr>LED_state := \<not> LED_state s\<rparr>))
      else ([], Inr s))"
  by (simp add: led_step_def Let_def call_dev_def then_run_simps ret_def)

lemma led_step_result:
  assumes "\<not> r (SetLineValue LED_PIN True)" and "\<not> r (SetLineValue LED_PIN False)"
  shows "snd (led_step r t s) = Inr (s\<lparr>LED_state := (py_int t mod 2 = 1)\<rparr>)"
proof (cases "LED_state s")
  case True
  then show ?thesis using assms by (auto simp: led_step_eq)
next
  case False
  have "py_int t mod 2 = 0 \<or> py_int t mod 2 = 1" by presburger
  then show ?thesis using False assms by (auto simp: led_step_eq)
qed

lemmas run_defs = ret_def call_dev_def sleep_def then_run_simps try_pass_simps

lemma render_info_ok:
  "\<forall>q. \<not> r (Query q) \<Longrightarrow>
   render_info r = ([Query Hostname, Query IPAddress, Query CpuPercent, Query VirtualMemory,
                     Canvas InfoScreen], Inr ())"
  by (simp add: render_info_def run_defs)

lemma render_page1_ok:
  "\<forall>q. \<not> r (Query q) \<Longrightarrow>
   render_page1 r = ([Query Uptime, Query LoadAvg, Query CpuTemp, Canvas Page1], Inr ())"
  by (simp add: render_page1_def run_defs)

lemma render_page2_eq: "render_page2 r = ([Canvas Page2], Inr ())"
  by (simp add: render_page2_def run_defs)

lemma display_step_ok:
  assumes "\<forall>q. \<not> raises e (Query q)"
  shows "display_step e s =
     ((if t_act e - disp_timer s < 15
       then [DispShow] @
            (if menu_state s = 0
             then [Query Hostname, Query IPAddress, Query CpuPercent, Query VirtualMemory,
                   Canvas InfoScreen] else []) @
            (if menu_state s = 1
             then [Query Uptime, Query LoadAvg, Query CpuTemp, Canvas Page1] else []) @
            (if menu_state s = 2 then [Canvas Page2] else [])
       else if raises e DispClear then [DispClear] else [DispClear, DispHide]), Inr ())"
  using assms
  by (simp add: display_step_def DISP_TIMEOUT_def render_info_ok render_page1_ok
      render_page2_eq run_defs)

lemma main_iter_ok:
  assumes "\<not> raises e (SetLineValue LED_PIN True)" and "\<not> raises e (SetLineValue LED_PIN False)"
    and "\<forall>q. \<not> raises e (Query q)"
  shows "snd (main_iter e s) =
           Inr (s\<lparr>LED_state := (py_int (t_led e) mod 2 = 1),
                  last_second := py_int (t_sec e - disp_timer s)\<rparr>)"
    and "fst (main_iter e s) =
           fst (led_step (raises e) (t_led e) s) @
           (if py_int (t_sec e - disp_timer s) \<noteq> last_second s
            then fst (display_step e s) else []) @ [Sleep (1 / 5)]"
proof -
  obtain cs where l: "led_step (raises e) (t_led e) s =
      (cs, Inr (s\<lparr>LED_state := (py_int (t_led e) mod 2 = 1)\<rparr>))"
    using led_step_result [OF assms(1,2), of "t_led e" s]
    by (cases "led_step (raises e) (t_led e) s") simp
  have d: "display_step e (s\<lparr>LED_state := b, last_second := k\<rparr>) = display_step e s" for b k
    by (simp add: display_step_def)
  have r: "snd (display_step e s) = Inr ()"
    by (simp add: display_step_ok [OF assms(3)])
  show "snd (main_iter e s) =
           Inr (s\<lparr>LED_state := (py_int (t_led e) mod 2 = 1),
                  last_second := py_int (t_sec e - disp_timer s)\<rparr>)"
    using r by (cases "display_step e s") (auto simp add: main_iter_def l Let_def d run_defs)
  show "fst (main_iter e s) =
           fst (led_step (raises e) (t_led e) s) @
           (if py_int (t_sec e - disp_timer s) \<noteq> last_second s
            then fst (display_step e s) else []) @ [Sleep (1 / 5)]"
    using r by (cases "display_step e s") (auto simp add: main_iter_def l Let_def d run_defs)
qed

lemma led_step_calls_not_display: "filter is_display_call (fst (led_step r t s)) = []"
  by (simp add: led_step_eq)

lemma display_only_ok:
  assumes "\<forall>c. r c \<longrightarrow> is_display_call c"
  shows "\<not> r (SetLineValue n b)" and "\<forall>q. \<not> r (Query q)"
proof -
  show "\<not> r (SetLineValue n b)"
    using assms [rule_format, of "SetLineValue n b"] by auto
  show "\<forall>q. \<not> r (Query q)"
  proof
    fix q
    show "\<not> r (Query q)" using assms [rule_format, of "Query q"] by auto
  qed
qed

lemma main_loop_stops_raising:
  "main_loop envs i s = Some y \<Longrightarrow> \<exists>j c. raises (envs j) c \<and> \<not> is_display_call c"
proof (erule main_loop.raw_induct [rotated])
  fix ml envs i s y
  assume IH: "\<And>envs i s y. ml envs i s = Some y \<Longrightarrow>
      \<exists>j c. raises (envs j) c \<and> \<not> is_display_call c"
    and body: "(if True
      then case snd (main_iter (envs i) (run_presses (presses (envs i)) s)) of
           Inl x \<Rightarrow> Some (Inl x) | Inr s' \<Rightarrow> ml envs (Suc i) s'
      else Some (Inr s)) = Some y"
  show "\<exists>j c. raises (envs j) c \<and> \<not> is_display_call c"
  proof (cases "\<forall>c. raises (envs i) c \<longrightarrow> is_display_call c")
    case True
    from main_iter_ok(1) [OF display_only_ok(1) [OF True] display_only_ok(1) [OF True]
        display_only_ok(2) [OF True]]
    obtain s' where
      "snd (main_iter (envs i) (run_presses (presses (envs i)) s)) = Inr s'" by blast
    with body have "ml envs (Suc i) s' = Some y" by simp
    then show ?thesis by (rule IH)
  next
    case False
    then show ?thesis by blast
  qed
qed

lemma main_loop_display_only:
  assumes "\<forall>i c. raises (envs i) c \<longrightarrow> is_display_call c"
  shows "main_loop envs i s = None"
proof (rule ccontr)
  assume "main_loop envs i s \<noteq> None"
  then obtain y where "main_loop envs i s = Some y" by blast
  from main_loop_stops_raising [OF this] assms show False by blast
qed

lemma main_loop_result: "main_loop envs i s = Some y \<Longrightarrow> \<exists>x. y = Inl x"
  by (erule main_loop.raw_induct [rotated]) (auto split: sum.splits intro: sym)

lemma main_loop_no_exit: "main_loop envs i s \<noteq> Some (Inr s')"
  using main_loop_result [of envs i s "Inr s'"] by auto

lemma queries_first_failing:
  "find (\<lambda>q. r (Query q)) qs = Some q \<Longrightarrow>
   queries r qs =
     (map Query (takeWhile (\<lambda>q. \<not> r (Query q)) qs) @ [Query q], Inl (Raised (Query q)))"
proof (induction qs)
  case Nil
  then show ?case by simp
next
  case (Cons a qs)
  show ?case
  proof (cases "r (Query a)")
    case True
    with Cons.prems have "a = q" by simp
    with True show ?thesis by (simp add: run_defs)
  next
    case False
    with Cons.prems have "find (\<lambda>q. r (Query q)) qs = Some q" by simp
    from Cons.IH [OF this] False show ?thesis by (simp add: run_defs)
  qed
qed

lemma display_step_first_failing:
  assumes "t_act e - disp_timer s < 15"
    and "find (\<lambda>q. raises e (Query q)) (screen_queries (menu_state s)) = Some q"
  shows "display_step e s =
           (DispShow # map Query (takeWhile (\<lambda>q. \<not> raises e (Query q))
                                    (screen_queries (menu_state s))) @ [Query q],
            Inl (Raised (Query q)))"
proof -
  note q = queries_first_failing [OF assms(2)]
  have "menu_state s = 0 \<or> menu_state s = 1"
    using assms(2) by (auto simp: screen_queries_def split: if_splits)
  then show ?thesis
  proof
    assume m0: "menu_state s = 0"
    have l: "screen_queries (menu_state s) = [Hostname, IPAddress, CpuPercent, VirtualMemory]"
      by (simp add: m0 screen_queries_def)
    show ?thesis using assms(1) m0 q unfolding l
      by (simp add: display_step_def DISP_TIMEOUT_def render_info_def call_dev_def
          try_pass_simps then_run_simps del: queries.simps takeWhile.simps)
  next
    assume m1: "menu_state s = 1"
    have l: "screen_queries (menu_state s) = [Uptime, LoadAvg, CpuTemp]"
      by (simp add: m1 screen_queries_def)
    show ?thesis using assms(1) m1 q unfolding l
      by (simp add: display_step_def DISP_TIMEOUT_def render_page1_def call_dev_def
          try_pass_simps then_run_simps ret_def del: queries.simps takeWhile.simps)
  qed
qed

lemma main_iter_first_failing:
  assumes "\<not> raises e (SetLineValue LED_PIN True)" and "\<not> raises e (SetLineValue LED_PIN False)"
    and "py_int (t_sec e - disp_timer s) \<noteq> last_second s"
    and "t_act e - disp_timer s < 15"
    and "find (\<lambda>q. raises e (Query q)) (screen_queries (menu_state s)) = Some q"
  shows "main_iter e s =
           (fst (led_step (raises e) (t_led e) s) @
            DispShow # map Query (takeWhile (\<lambda>q. \<not> raises e (Query q))
                                    (screen_queries (menu_state s))) @ [Query q],
            Inl (Raised (Query q)))"
proof -
  obtain ls where l: "led_step (raises e) (t_led e) s =
      (ls, Inr (s\<lparr>LED_state := (py_int (t_led e) mod 2 = 1)\<rparr>))"
    using led_step_result [OF assms(1,2), of "t_led e" s]
    by (cases "led_step (raises e) (t_led e) s") simp
  have d: "display_step e (s\<lparr>LED_state := b, last_second := k\<rparr>) = display_step e s" for b k
    by (simp add: display_step_def)
  show ?thesis
    using assms(3)
    by (simp add: main_iter_def l Let_def d display_step_first_failing [OF assms(4,5)]
        then_run_simps)
qed

lemma display_step_calls:
  assumes "\<forall>q. \<not> raises e (Query q)" and "menu_state s \<in> {0, 1, 2}"
  shows "filter is_display_call (fst (display_step e s)) =
           (if t_act e - disp_timer s < 15
            then [DispShow, Canvas (if menu_state s = 0 then InfoScreen
                                    else if menu_state s = 1 then Page1 else Page2)]
            else if raises e DispClear then [DispClear] else [DispClear, DispHide])"
  using assms(2) by (auto simp: display_step_ok [OF assms(1)])

lemma main_iter_display_calls:
  assumes "\<not> raises e (SetLineValue LED_PIN True)" and "\<not> raises e (SetLineValue LED_PIN False)"
    and "\<forall>q. \<not> raises e (Query q)"
    and "menu_state s \<in> {0, 1, 2}"
    and "py_int (t_sec e - disp_timer s) \<noteq> last_second s"
  shows "filter is_display_call (fst (main_iter e s)) =
           (if t_act e - disp_timer s < 15
            then [DispShow, Canvas (if menu_state s = 0 then InfoScreen
                                    else if menu_state s = 1 then Page1 else Page2)]
            else if raises e DispClear then [DispClear] else [DispClear, DispHide])"
proof -
  have "fst (main_iter e s) =
          fst (led_step (raises e) (t_led e) s) @ fst (display_step e s) @ [Sleep (1 / 5)]"
    using main_iter_ok(2) [OF assms(1,2,3), of s] assms(5) by simp
  then show ?thesis
    by (simp add: led_step_calls_not_display display_step_calls [OF assms(3,4)])
qed

lemma run_iters_display_only:
  assumes "\<forall>i c. raises (envs i) c \<longrightarrow> is_display_call c"
  shows "\<exists>s'. run_iters envs i n s = Inr s'"
proof (induction n arbitrary: i s)
  case 0
  show ?case by simp
next
  case (Suc n)
  have d: "\<forall>c. raises (envs i) c \<longrightarrow> is_display_call c" using assms by blast
  from main_iter_ok(1) [OF display_only_ok(1) [OF d] display_only_ok(1) [OF d]
      display_only_ok(2) [OF d]]
  obtain s1 where "snd (main_iter (envs i) (run_presses (presses (envs i)) s)) = Inr s1"
    by blast
  with Suc.IH [of "Suc i" s1] show ?case by simp
qed

section \<open>The LED step\<close>

text \<open>
  Claim C10. The LED step is self-synchronising: for a clock reading \<open>t\<close> that is not
  negative (the wall clock counts seconds from the epoch) and a GPIO call that does not
  raise, the step of any iteration leaves \<open>LED_state\<close> equal to the parity of
  \<open>\<lfloor>t\<rfloor>\<close> (true for odd, that is \<open>\<lfloor>t\<rfloor> mod 2 = 1\<close>), whatever \<open>LED_state\<close> was
  before, and changes nothing else.
\<close>

theorem led_self_sync:
  assumes "0 \<le> t" and "\<not> r (SetLineValue LED_PIN True)" and "\<not> r (SetLineValue LED_PIN False)"
  shows "snd (led_step r t s) = Inr (s\<lparr>LED_state := (\<lfloor>t\<rfloor> mod 2 = 1)\<rparr>)"
  using led_step_result [OF assms(2,3), of t s] assms(1) by (simp add: py_int_nonneg)

theorem led_self_sync_witness:
  "snd (led_step no_raise (17000000037 / 10) init_state) = Inr (init_state\<lparr>LED_state := True\<rparr>)
   \<and> snd (led_step no_raise (17000000037 / 10) (init_state\<lparr>LED_state := True\<rparr>)) =
       Inr (init_state\<lparr>LED_state := True\<rparr>)
   \<and> snd (led_step no_raise (17000000042 / 10) (init_state\<lparr>LED_state := True\<rparr>)) =
       Inr (init_state\<lparr>LED_state := False\<rparr>)"
proof -
  have n: "\<not> no_raise (SetLineValue LED_PIN True)" "\<not> no_raise (SetLineValue LED_PIN False)"
    by (simp_all add: no_raise_def)
  have t: "(0::real) \<le> 17000000037 / 10" "(0::real) \<le> 17000000042 / 10"
    by simp_all
  show ?thesis
    using led_self_sync [OF t(1) n, of init_state]
      led_self_sync [OF t(1) n, of "init_state\<lparr>LED_state := True\<rparr>"]
      led_self_sync [OF t(2) n, of "init_state\<lparr>LED_state := True\<rparr>"]
    by simp
qed

section \<open>The display gate\<close>

text \<open>
  Claim C3. In an iteration in which no call raises, whose clock reading of line 203 is
  not before \<open>disp_timer\<close> (so that Python's truncation is the floor) and gives a whole
  second \<open>\<lfloor>t_sec - disp_timer\<rfloor>\<close> other than \<open>last_second\<close>, and with the menu state one
  of 0, 1, 2: the display calls of the iteration are power-on followed by the draw of the
  screen the menu state selects if and only if the reading of line 209 has
  \<open>t_act - disp_timer < 15\<close>; otherwise they are clear followed by power-off. Nothing
  else decides between the two.
\<close>

theorem display_gate:
  assumes "menu_state s \<in> {0, 1, 2}"
    and "disp_timer s \<le> t_sec e"
    and "\<lfloor>t_sec e - disp_timer s\<rfloor> \<noteq> last_second s"
    and "\<forall>c. \<not> raises e c"
  shows "filter is_display_call (fst (main_iter e s)) =
           (if t_act e - disp_timer s < 15
            then [DispShow, Canvas (if menu_state s = 0 then InfoScreen
                                    else if menu_state s = 1 then Page1 else Page2)]
            else [DispClear, DispHide])"
proof -
  have b: "py_int (t_sec e - disp_timer s) \<noteq> last_second s"
    using assms(2,3) by (simp add: py_int_nonneg)
  have "\<not> raises e (SetLineValue LED_PIN True)" "\<not> raises e (SetLineValue LED_PIN False)"
    "\<forall>q. \<not> raises e (Query q)" "\<not> raises e DispClear"
    using assms(4) by simp_all
  then show ?thesis
    using main_iter_display_calls [of e s] assms(1) b by simp
qed

theorem display_gate_witness:
  "filter is_display_call (fst (main_iter
       \<lparr>t_led = 10149 / 10, t_sec = 10149 / 10, t_act = 10149 / 10,
         raises = no_raise, presses = []\<rparr>
       \<lparr>LED_state = False, disp_timer = 1000, menu_state = 1, last_second = 13\<rparr>))
     = [DispShow, Canvas Page1]
   \<and> filter is_display_call (fst (main_iter
       \<lparr>t_led = 10151 / 10, t_sec = 10151 / 10, t_act = 10151 / 10,
         raises = no_raise, presses = []\<rparr>
       \<lparr>LED_state = False, disp_timer = 1000, menu_state = 1, last_second = 14\<rparr>))
     = [DispClear, DispHide]"
proof -
  have a: "filter is_display_call (fst (main_iter
       \<lparr>t_led = 10149 / 10, t_sec = 10149 / 10, t_act = 10149 / 10,
         raises = no_raise, presses = []\<rparr>
       \<lparr>LED_state = False, disp_timer = 1000, menu_state = 1, last_second = 13\<rparr>))
     = [DispShow, Canvas Page1]"
    using display_gate [of "\<lparr>LED_state = False, disp_timer = 1000, menu_state = 1,
        last_second = 13\<rparr>" "\<lparr>t_led = 10149 / 10, t_sec = 10149 / 10, t_act = 10149 / 10,
         raises = no_raise, presses = []\<rparr>"]
    by (simp add: no_raise_def)
  have b: "filter is_display_call (fst (main_iter
       \<lparr>t_led = 10151 / 10, t_sec = 10151 / 10, t_act = 10151 / 10,
         raises = no_raise, presses = []\<rparr>
       \<lparr>LED_state = False, disp_timer = 1000, menu_state = 1, last_second = 14\<rparr>))
     = [DispClear, DispHide]"
    using display_gate [of "\<lparr>LED_state = False, disp_timer = 1000, menu_state = 1,
        last_second = 14\<rparr>" "\<lparr>t_led = 10151 / 10, t_sec = 10151 / 10, t_act = 10151 / 10,
         raises = no_raise, presses = []\<rparr>"]
    by (simp add: no_raise_def)
  from a b show ?thesis by simp
qed

section \<open>Failing calls\<close>

text \<open>
  Claim C5, as the script has it. The telemetry of a screen is queried outside every
  \<^verbatim>\<open>try\<close> block. In a render cycle (an iteration at a new whole second with the
  display active, the GPIO call not raising) in which a telemetry query of the selected
  screen raises, the exception of the first such query, in the order the screen queries,
  propagates out of the iteration: the calls of the cycle are the LED's, the power-on,
  the queries before the failing one and the failing one; no draw is attempted in that
  cycle, and the main loop ends with that exception, so no later cycle runs.
\<close>

theorem telemetry_failure_propagates:
  assumes "\<not> raises e (SetLineValue LED_PIN True)" and "\<not> raises e (SetLineValue LED_PIN False)"
    and "py_int (t_sec e - disp_timer s) \<noteq> last_second s"
    and "t_act e - disp_timer s < 15"
    and "find (\<lambda>q. raises e (Query q)) (screen_queries (menu_state s)) = Some q"
  shows "main_iter e s =
           (fst (led_step (raises e) (t_led e) s) @
            DispShow # map Query (takeWhile (\<lambda>q. \<not> raises e (Query q))
                                    (screen_queries (menu_state s))) @ [Query q],
            Inl (Raised (Query q)))
         \<and> (\<forall>scr. Canvas scr \<notin> set (fst (main_iter e s)))
         \<and> (\<forall>envs i s0. envs i = e \<and> run_presses (presses e) s0 = s \<longrightarrow>
               main_loop envs i s0 = Some (Inl (Raised (Query q))))"
proof -
  note m = main_iter_first_failing [OF assms]
  have c: "\<forall>scr. Canvas scr \<notin> set (fst (main_iter e s))"
    unfolding m by (auto simp: led_step_eq)
  have "main_loop envs i s0 = Some (Inl (Raised (Query q)))"
    if "envs i = e \<and> run_presses (presses e) s0 = s" for envs i s0
    using that m by (subst main_loop.simps) simp
  with m c show ?thesis by blast
qed

theorem telemetry_failure_propagates_witness:
  "main_iter \<lparr>t_led = 1002, t_sec = 1002, t_act = 1002,
               raises = (\<lambda>c. c = Query Uptime \<or> c = Query CpuTemp), presses = []\<rparr>
         \<lparr>LED_state = False, disp_timer = 1001, menu_state = 1, last_second = 0\<rparr>
     = ([DispShow, Query Uptime], Inl (Raised (Query Uptime)))
   \<and> main_iter \<lparr>t_led = 1002, t_sec = 1002, t_act = 1002,
               raises = only_raises (Query VirtualMemory), presses = []\<rparr>
         \<lparr>LED_state = False, disp_timer = 1001, menu_state = 0, last_second = 0\<rparr>
     = ([DispShow, Query Hostname, Query IPAddress, Query CpuPercent, Query VirtualMemory],
        Inl (Raised (Query VirtualMemory)))
   \<and> main_loop (\<lambda>i. \<lparr>t_led = 1002, t_sec = 1002, t_act = 1002,
               raises = (\<lambda>c. c = Query Uptime \<or> c = Query CpuTemp), presses = []\<rparr>) 0
         \<lparr>LED_state = False, disp_timer = 1001, menu_state = 1, last_second = 0\<rparr>
     = Some (Inl (Raised (Query Uptime)))"
proof -
  have a: "find (\<lambda>q. q = Uptime \<or> q = CpuTemp) (screen_queries 1) = Some Uptime"
    by (simp add: screen_queries_def)
  have b: "find (\<lambda>q. only_raises (Query VirtualMemory) (Query q)) (screen_queries 0) =
      Some VirtualMemory"
    by (simp add: screen_queries_def only_raises_def)
  show ?thesis
    using telemetry_failure_propagates [of "\<lparr>t_led = 1002, t_sec = 1002, t_act = 1002,
               raises = (\<lambda>c. c = Query Uptime \<or> c = Query CpuTemp), presses = []\<rparr>"
        "\<lparr>LED_state = False, disp_timer = 1001, menu_state = 1, last_second = 0\<rparr>" Uptime]
      telemetry_failure_propagates [of "\<lparr>t_led = 1002, t_sec = 1002, t_act = 1002,
               raises = only_raises (Query VirtualMemory), presses = []\<rparr>"
        "\<lparr>LED_state = False, disp_timer = 1001, menu_state = 0, last_second = 0\<rparr>"
        VirtualMemory] a b
    by (simp add: only_raises_def py_int_def led_step_eq screen_queries_def)
qed

text \<open>
  The claim as stated fails: with the display active on Page1 after two presses, a
  CPU-temperature query that raises is not caught; the exception leaves the iteration and
  ends the main loop.
\<close>

theorem telemetry_failure_counterexample:
  "snd (main_iter \<lparr>t_led = 1002, t_sec = 1002, t_act = 1002,
                   raises = only_raises (Query CpuTemp), presses = []\<rparr>
         (run_presses [(1000, 1000), (1001, 1001)] init_state))
     = Inl (Raised (Query CpuTemp))
   \<and> main_loop (\<lambda>i. \<lparr>t_led = 1002, t_sec = 1002, t_act = 1002,
                   raises = only_raises (Query CpuTemp), presses = []\<rparr>) 0
         (run_presses [(1000, 1000), (1001, 1001)] init_state)
     = Some (Inl (Raised (Query CpuTemp)))"
proof -
  have a: "snd (main_iter \<lparr>t_led = 1002, t_sec = 1002, t_act = 1002,
                   raises = only_raises (Query CpuTemp), presses = []\<rparr>
         (run_presses [(1000, 1000), (1001, 1001)] init_state))
     = Inl (Raised (Query CpuTemp))"
    by (simp add: main_iter_def init_state_def btn_press_def led_step_def py_int_def
        display_step_def render_page1_def DISP_TIMEOUT_def only_raises_def Let_def run_defs)
  then have "main_loop (\<lambda>i. \<lparr>t_led = 1002, t_sec = 1002, t_act = 1002,
                   raises = only_raises (Query CpuTemp), presses = []\<rparr>) 0
         (run_presses [(1000, 1000), (1001, 1001)] init_state)
     = Some (Inl (Raised (Query CpuTemp)))"
    by (subst main_loop.simps) simp
  with a show ?thesis by simp
qed

text \<open>
  Claim C6. In an iteration in which only display calls raise (power-on, draw, clear,
  power-off, any of them or all), no exception leaves the iteration body: the iteration
  ends in the same state as it does when nothing raises. At a new whole second the
  display calls are attempted whether or not they raise (a failing clear skips the
  power-off of that cycle), so they are attempted again at the next whole second. A main
  loop in which only display calls ever raise never ends: every number of iterations
  completes.
\<close>

theorem display_failures_ignored:
  assumes "\<forall>c. raises e c \<longrightarrow> is_display_call c"
  shows "snd (main_iter e s) =
           Inr (s\<lparr>LED_state := (py_int (t_led e) mod 2 = 1),
                  last_second := py_int (t_sec e - disp_timer s)\<rparr>)
         \<and> snd (main_iter e s) = snd (main_iter (e\<lparr>raises := no_raise\<rparr>) s)
         \<and> (menu_state s \<in> {0, 1, 2} \<and> py_int (t_sec e - disp_timer s) \<noteq> last_second s \<longrightarrow>
              filter is_display_call (fst (main_iter e s)) =
                (if t_act e - disp_timer s < 15
                 then [DispShow, Canvas (if menu_state s = 0 then InfoScreen
                                         else if menu_state s = 1 then Page1 else Page2)]
                 else if raises e DispClear then [DispClear] else [DispClear, DispHide]))
         \<and> ((\<forall>j c. raises (envs j) c \<longrightarrow> is_display_call c) \<longrightarrow>
              main_loop envs i s0 = None \<and> (\<exists>s'. run_iters envs i n s0 = Inr s'))"
proof -
  note ok = display_only_ok(1) [OF assms, of LED_PIN True]
    display_only_ok(1) [OF assms, of LED_PIN False] display_only_ok(2) [OF assms]
  have a: "snd (main_iter e s) =
           Inr (s\<lparr>LED_state := (py_int (t_led e) mod 2 = 1),
                  last_second := py_int (t_sec e - disp_timer s)\<rparr>)"
    by (rule main_iter_ok(1) [OF ok])
  have "snd (main_iter (e\<lparr>raises := no_raise\<rparr>) s) =
           Inr (s\<lparr>LED_state := (py_int (t_led e) mod 2 = 1),
                  last_second := py_int (t_sec e - disp_timer s)\<rparr>)"
    using main_iter_ok(1) [of "e\<lparr>raises := no_raise\<rparr>" s] by (simp add: no_raise_def)
  with a have b: "snd (main_iter e s) = snd (main_iter (e\<lparr>raises := no_raise\<rparr>) s)"
    by simp
  have c: "menu_state s \<in> {0, 1, 2} \<and> py_int (t_sec e - disp_timer s) \<noteq> last_second s \<longrightarrow>
              filter is_display_call (fst (main_iter e s)) =
                (if t_act e - disp_timer s < 15
                 then [DispShow, Canvas (if menu_state s = 0 then InfoScreen
                                         else if menu_state s = 1 then Page1 else Page2)]
                 else if raises e DispClear then [DispClear] else [DispClear, DispHide])"
    using main_iter_display_calls [OF ok] by blast
  have d: "(\<forall>j c. raises (envs j) c \<longrightarrow> is_display_call c) \<longrightarrow>
              main_loop envs i s0 = None \<and> (\<exists>s'. run_iters envs i n s0 = Inr s')"
    using main_loop_display_only run_iters_display_only by blast
  from a b c d show ?thesis by blast
qed

theorem display_failures_ignored_witness:
  "snd (main_iter \<lparr>t_led = 1005, t_sec = 1005, t_act = 1005,
                   raises = is_display_call, presses = []\<rparr>
         \<lparr>LED_state = False, disp_timer = 1000, menu_state = 2, last_second = 4\<rparr>)
     = Inr \<lparr>LED_state = True, disp_timer = 1000, menu_state = 2, last_second = 5\<rparr>
   \<and> filter is_display_call (fst (main_iter \<lparr>t_led = 1005, t_sec = 1005, t_act = 1005,
                   raises = is_display_call, presses = []\<rparr>
         \<lparr>LED_state = False, disp_timer = 1000, menu_state = 2, last_second = 4\<rparr>))
     = [DispShow, Canvas Page2]
   \<and> main_loop (\<lambda>j. \<lparr>t_led = 1005, t_sec = 1005, t_act = 1005,
                   raises = is_display_call, presses = []\<rparr>) 0 init_state = None"
proof -
  have h: "\<forall>c. raises \<lparr>t_led = 1005, t_sec = 1005, t_act = 1005,
                   raises = is_display_call, presses = []\<rparr> c \<longrightarrow> is_display_call c"
    by simp
  show ?thesis
    using display_failures_ignored [OF h,
        of "\<lparr>LED_state = False, disp_timer = 1000, menu_state = 2, last_second = 4\<rparr>"
          "\<lambda>j. \<lparr>t_led = 1005, t_sec = 1005, t_act = 1005,
                   raises = is_display_call, presses = []\<rparr>" 0 init_state 0]
    by (simp add: py_int_def)
qed

section \<open>The end of the script\<close>

text \<open>
  Claim C9. The main loop is never left normally: its condition is the constant
  \<^verbatim>\<open>True\<close> and its body has no exit, so the loop either runs for ever or is ended by
  an exception that propagates out of the script. The GPIO cleanup statement after the
  loop is therefore never reached, whatever the calls and the clock do; and when no call
  raises the loop, and with it the script, runs for ever.
\<close>

theorem cleanup_unreachable:
  "main_loop envs i s \<noteq> Some (Inr s')
   \<and> script r envs \<noteq> Some ReachedCleanup
   \<and> ((\<forall>j c. \<not> raises (envs j) c) \<longrightarrow>
        main_loop envs i s = None \<and> script no_raise envs = None)"
proof -
  have a: "main_loop envs i s \<noteq> Some (Inr s')"
    by (rule main_loop_no_exit)
  have b: "script r envs \<noteq> Some ReachedCleanup"
    by (auto simp: script_def main_loop_no_exit split: sum.splits option.splits)
  have c: "main_loop envs i s = None \<and> script no_raise envs = None"
    if h: "\<forall>j c. \<not> raises (envs j) c"
  proof -
    from h have d: "\<forall>j c. raises (envs j) c \<longrightarrow> is_display_call c" by simp
    have "snd (startup no_raise) = Inr init_state"
      by (simp add: startup_def no_raise_def run_defs)
    then show ?thesis
      by (simp add: script_def main_loop_display_only [OF d])
  qed
  from a b c show ?thesis by blast
qed

theorem cleanup_unreachable_witness:
  "main_loop (\<lambda>j. \<lparr>t_led = 1000 + real j / 5, t_sec = 1000 + real j / 5,
                   t_act = 1000 + real j / 5, raises = no_raise, presses = []\<rparr>) 0 init_state
     = None
   \<and> script no_raise (\<lambda>j. \<lparr>t_led = 1000 + real j / 5, t_sec = 1000 + real j / 5,
                   t_act = 1000 + real j / 5, raises = no_raise, presses = []\<rparr>) = None"
  using cleanup_unreachable [of "\<lambda>j. \<lparr>t_led = 1000 + real j / 5, t_sec = 1000 + real j / 5,
                   t_act = 1000 + real j / 5, raises = no_raise, presses = []\<rparr>" 0 init_state]
  by (simp add: no_raise_def)

section \<open>The signal watcher's filter\<close>

lemma handle_events_Cons:
  "handle_events ((ev, a, b) # rest) s =
     (if line_offset ev = BTN_PIN \<and> event_type ev = FALLING_EDGE
      then (ev # fst (handle_events rest (btn_press a b s)),
            snd (handle_events rest (btn_press a b s)))
      else handle_events rest s)"
  by (simp split: prod.splits)

lemma handle_events_called:
  "fst (handle_events evs s) =
     filter (\<lambda>ev. line_offset ev = BTN_PIN \<and> event_type ev = FALLING_EDGE) (map fst evs)"
proof (induction evs arbitrary: s)
  case Nil
  show ?case by simp
next
  case (Cons x evs)
  obtain ev a b where x: "x = (ev, a, b)" by (cases x)
  show ?case unfolding x handle_events_Cons by (simp add: Cons.IH)
qed

lemma handle_events_state:
  "snd (handle_events evs s) =
     run_presses (map snd (filter (\<lambda>x. line_offset (fst x) = BTN_PIN
        \<and> event_type (fst x) = FALLING_EDGE) evs)) s"
proof (induction evs arbitrary: s)
  case Nil
  show ?case by simp
next
  case (Cons x evs)
  obtain ev a b where x: "x = (ev, a, b)" by (cases x)
  show ?case unfolding x handle_events_Cons by (simp add: Cons.IH)
qed

lemma handle_events_eq:
  "handle_events evs s =
     (filter (\<lambda>ev. line_offset ev = BTN_PIN \<and> event_type ev = FALLING_EDGE) (map fst evs),
      run_presses (map snd (filter (\<lambda>x. line_offset (fst x) = BTN_PIN
        \<and> event_type (fst x) = FALLING_EDGE) evs)) s)"
  using handle_events_called [of evs s] handle_events_state [of evs s]
  by (cases "handle_events evs s") simp

lemma poll_batch_eq:
  "poll_batch fds s =
     (DoneFd \<in> set fds,
      filter (\<lambda>ev. line_offset ev = BTN_PIN \<and> event_type ev = FALLING_EDGE)
        (map fst (batch_events fds)),
      run_presses (map snd (filter (\<lambda>x. line_offset (fst x) = BTN_PIN
        \<and> event_type (fst x) = FALLING_EDGE) (batch_events fds))) s)"
proof (induction fds s rule: poll_batch.induct)
  case (1 s)
  show ?case by simp
next
  case (2 fds s)
  show ?case by simp
next
  case (3 evs fds s)
  show ?case
    using "3.IH" [OF handle_events_eq [of evs s, symmetric]]
    by (simp add: handle_events_eq run_presses_append)
qed

lemma async_watch_eq:
  "async_watch_line_value polls s =
     (\<exists>b \<in> set polls. DoneFd \<in> set b,
      filter (\<lambda>ev. line_offset ev = BTN_PIN \<and> event_type ev = FALLING_EDGE)
        (map fst (events_read polls)),
      run_presses (map snd (filter (\<lambda>x. line_offset (fst x) = BTN_PIN
        \<and> event_type (fst x) = FALLING_EDGE) (events_read polls))) s)"
proof (induction polls arbitrary: s)
  case Nil
  show ?case by simp
next
  case (Cons b bs)
  show ?case
    by (simp add: poll_batch_eq Cons.IH run_presses_append)
qed

text \<open>
  Claim C7. Of the edge events the watcher reads, \<^verbatim>\<open>btn_press\<close> is called for exactly
  those that are falling-edge events on the button line, in the order read, and the state
  is the one these presses give; rising edges and events of other lines change nothing.
  This holds of the inner loop over one batch of events and of the whole watcher over
  any poll results, which returns exactly when a poll result holds the cancellation
  descriptor; and the line is requested with detection of both edges.
\<close>

theorem watcher_filters_events:
  "handle_events evs s =
     (filter (\<lambda>ev. line_offset ev = BTN_PIN \<and> event_type ev = FALLING_EDGE) (map fst evs),
      run_presses (map snd (filter (\<lambda>x. line_offset (fst x) = BTN_PIN
        \<and> event_type (fst x) = FALLING_EDGE) evs)) s)
   \<and> async_watch_line_value polls s =
     (\<exists>b \<in> set polls. DoneFd \<in> set b,
      filter (\<lambda>ev. line_offset ev = BTN_PIN \<and> event_type ev = FALLING_EDGE)
        (map fst (events_read polls)),
      run_presses (map snd (filter (\<lambda>x. line_offset (fst x) = BTN_PIN
        \<and> event_type (fst x) = FALLING_EDGE) (events_read polls))) s)
   \<and> (ev \<in> set (fst (snd (async_watch_line_value polls s))) \<longleftrightarrow>
        ev \<in> fst ` set (events_read polls)
        \<and> line_offset ev = BTN_PIN \<and> event_type ev = FALLING_EDGE)
   \<and> edge_detection watch_settings = BOTH"
proof -
  have "ev \<in> set (fst (snd (async_watch_line_value polls s))) \<longleftrightarrow>
        ev \<in> fst ` set (events_read polls)
        \<and> line_offset ev = BTN_PIN \<and> event_type ev = FALLING_EDGE"
    unfolding async_watch_eq by auto
  then show ?thesis
    using handle_events_eq [of evs s] async_watch_eq [of polls s]
    by (simp add: watch_settings_def)
qed

theorem watcher_filters_events_witness:
  "async_watch_line_value
      [[RequestFd
          [(\<lparr>line_offset = 27, event_type = RISING_EDGE, line_seqno = 1\<rparr>, 1000, 1000),
           (\<lparr>line_offset = 27, event_type = FALLING_EDGE, line_seqno = 2\<rparr>, 1001, 1001)]],
       [RequestFd
          [(\<lparr>line_offset = 17, event_type = FALLING_EDGE, line_seqno = 1\<rparr>, 1002, 1002),
           (\<lparr>line_offset = 27, event_type = FALLING_EDGE, line_seqno = 4\<rparr>, 1003, 1003)],
        DoneFd,
        RequestFd
          [(\<lparr>line_offset = 27, event_type = FALLING_EDGE, line_seqno = 6\<rparr>, 1004, 1004)]],
       [RequestFd
          [(\<lparr>line_offset = 27, event_type = FALLING_EDGE, line_seqno = 8\<rparr>, 1005, 1005)]]]
      init_state
     = (True,
        [\<lparr>line_offset = 27, event_type = FALLING_EDGE, line_seqno = 2\<rparr>,
         \<lparr>line_offset = 27, event_type = FALLING_EDGE, line_seqno = 4\<rparr>],
        btn_press 1003 1003 (btn_press 1001 1001 init_state))
   \<and> handle_events
      [(\<lparr>line_offset = 27, event_type = RISING_EDGE, line_seqno = 1\<rparr>, 1000, 1000),
       (\<lparr>line_offset = 27, event_type = FALLING_EDGE, line_seqno = 2\<rparr>, 1001, 1001),
       (\<lparr>line_offset = 17, event_type = FALLING_EDGE, line_seqno = 1\<rparr>, 1002, 1002)]
      init_state
     = ([\<lparr>line_offset = 27, event_type = FALLING_EDGE, line_seqno = 2\<rparr>],
        btn_press 1001 1001 init_state)"
  using watcher_filters_events [of
      "[(\<lparr>line_offset = 27, event_type = RISING_EDGE, line_seqno = 1\<rparr>, 1000, 1000),
       (\<lparr>line_offset = 27, event_type = FALLING_EDGE, line_seqno = 2\<rparr>, 1001, 1001),
       (\<lparr>line_offset = 17, event_type = FALLING_EDGE, line_seqno = 1\<rparr>, 1002, 1002)]"
      init_state
      "[[RequestFd
          [(\<lparr>line_offset = 27, event_type = RISING_EDGE, line_seqno = 1\<rparr>, 1000, 1000),
           (\<lparr>line_offset = 27, event_type = FALLING_EDGE, line_seqno = 2\<rparr>, 1001, 1001)]],
       [RequestFd
          [(\<lparr>line_offset = 17, event_type = FALLING_EDGE, line_seqno = 1\<rparr>, 1002, 1002),
           (\<lparr>line_offset = 27, event_type = FALLING_EDGE, line_seqno = 4\<rparr>, 1003, 1003)],
        DoneFd,
        RequestFd
          [(\<lparr>line_offset = 27, event_type = FALLING_EDGE, line_seqno = 6\<rparr>, 1004, 1004)]],
       [RequestFd
          [(\<lparr>line_offset = 27, event_type = FALLING_EDGE, line_seqno = 8\<rparr>, 1005, 1005)]]]"]
  by (simp add: BTN_PIN_def del: async_watch_line_value.simps handle_events.simps)

section \<open>The display after startup\<close>

text \<open>
  Claim C8, as the script has it. Startup leaves \<open>disp_timer\<close> at 0, the epoch, not at
  the time the process started. With no button press, an iteration in which no call
  raises and whose clock readings are 15 or more (every wall clock later than 15 seconds
  after the epoch) renders nothing: at a new whole second it clears and powers off the
  display, the first iteration after startup always does, and \<open>disp_timer\<close> stays 0.
  The display becomes active by the first button press, which selects the Info screen
  and sets \<open>disp_timer\<close> to the time of the press.
\<close>

theorem startup_display_asleep:
  "snd (startup no_raise) = Inr init_state
   \<and> disp_timer init_state = 0
   \<and> ((\<forall>c. \<not> raises e c) \<and> disp_timer s = 0 \<and> 15 \<le> t_sec e \<and> 15 \<le> t_act e \<longrightarrow>
        filter is_display_call (fst (main_iter e s)) =
          (if \<lfloor>t_sec e\<rfloor> \<noteq> last_second s then [DispClear, DispHide] else [])
        \<and> (\<exists>s'. snd (main_iter e s) = Inr s' \<and> disp_timer s' = 0))
   \<and> ((\<forall>c. \<not> raises e c) \<and> 15 \<le> t_sec e \<and> 15 \<le> t_act e \<longrightarrow>
        filter is_display_call (fst (main_iter e init_state)) = [DispClear, DispHide])
   \<and> (disp_timer s = 0 \<and> 15 \<le> t_check \<longrightarrow>
        menu_state (btn_press t_check t_store s) = 0
        \<and> disp_timer (btn_press t_check t_store s) = t_store)"
proof -
  have a: "snd (startup no_raise) = Inr init_state"
    by (simp add: startup_def no_raise_def run_defs)
  have b: "disp_timer init_state = 0"
    by (simp add: init_state_def)
  have c: "filter is_display_call (fst (main_iter e s)) =
          (if \<lfloor>t_sec e\<rfloor> \<noteq> last_second s then [DispClear, DispHide] else [])
        \<and> (\<exists>s'. snd (main_iter e s) = Inr s' \<and> disp_timer s' = 0)"
    if h: "(\<forall>c. \<not> raises e c) \<and> disp_timer s = 0 \<and> 15 \<le> t_sec e \<and> 15 \<le> t_act e" for s
  proof -
    from h have ok: "\<not> raises e (SetLineValue LED_PIN True)"
      "\<not> raises e (SetLineValue LED_PIN False)" "\<forall>q. \<not> raises e (Query q)"
      by simp_all
    from h have p: "py_int (t_sec e - disp_timer s) = \<lfloor>t_sec e\<rfloor>"
      by (simp add: py_int_def)
    from h have d: "fst (display_step e s) = [DispClear, DispHide]"
      by (simp add: display_step_ok [OF ok(3)])
    have "filter is_display_call (fst (main_iter e s)) =
          (if \<lfloor>t_sec e\<rfloor> \<noteq> last_second s then [DispClear, DispHide] else [])"
      by (simp add: main_iter_ok(2) [OF ok] p d led_step_calls_not_display)
    moreover have "\<exists>s'. snd (main_iter e s) = Inr s' \<and> disp_timer s' = 0"
      using h by (simp add: main_iter_ok(1) [OF ok])
    ultimately show ?thesis by simp
  qed
  have d: "filter is_display_call (fst (main_iter e init_state)) = [DispClear, DispHide]"
    if h: "(\<forall>c. \<not> raises e c) \<and> 15 \<le> t_sec e \<and> 15 \<le> t_act e"
  proof -
    have "\<lfloor>t_sec e\<rfloor> \<noteq> last_second init_state"
    proof -
      from h have "0 \<le> t_sec e" by simp
      then have "0 \<le> \<lfloor>t_sec e\<rfloor>" by (simp only: zero_le_floor)
      then have "\<lfloor>t_sec e\<rfloor> \<noteq> - 1" by linarith
      then show ?thesis by (simp add: init_state_def)
    qed
    with c [of init_state] h b show ?thesis by simp
  qed
  have f: "menu_state (btn_press t_check t_store s) = 0
        \<and> disp_timer (btn_press t_check t_store s) = t_store"
    if "disp_timer s = 0 \<and> 15 \<le> t_check"
    using that by (simp add: btn_press_def DISP_TIMEOUT_def Let_def)
  from a b c d f show ?thesis by blast
qed

theorem startup_display_asleep_witness:
  "filter is_display_call (fst (main_iter
       \<lparr>t_led = 1700000003, t_sec = 1700000003, t_act = 1700000003,
         raises = no_raise, presses = []\<rparr> init_state)) = [DispClear, DispHide]
   \<and> menu_state (btn_press 1700000010 1700000010 init_state) = 0
   \<and> disp_timer (btn_press 1700000010 1700000010 init_state) = 1700000010"
  using startup_display_asleep [of "\<lparr>t_led = 1700000003, t_sec = 1700000003,
      t_act = 1700000003, raises = no_raise, presses = []\<rparr>" init_state 1700000010 1700000010]
  by (simp add: no_raise_def init_state_def)

text \<open>
  The claim as stated fails: for a process started at 1700000000 seconds after the epoch,
  \<open>disp_timer\<close> after startup is not the start time, the display is not active three
  seconds later, and the first iteration clears and powers off the display instead of
  rendering the Info screen.
\<close>

theorem startup_timer_counterexample:
  "snd (startup no_raise) = Inr init_state
   \<and> disp_timer init_state \<noteq> 1700000000
   \<and> \<not> (1700000003 - disp_timer init_state < DISP_TIMEOUT)
   \<and> filter is_display_call (fst (main_iter
       \<lparr>t_led = 1700000003, t_sec = 1700000003, t_act = 1700000003,
         raises = no_raise, presses = []\<rparr> init_state)) = [DispClear, DispHide]"
  by (simp add: startup_def main_iter_def init_state_def led_step_def py_int_def
      display_step_def DISP_TIMEOUT_def no_raise_def Let_def run_defs)

section \<open>The LED over time\<close>

lemma led_step_no_raise:
  "snd (led_step no_raise t s) = Inr (s\<lparr>LED_state := (py_int t mod 2 = 1)\<rparr>)"
  by (rule led_step_result) (simp_all add: no_raise_def)

lemma led_flip_times_Cons:
  "led_flip_times (t # ts) s =
     (if LED_state s \<noteq> (py_int t mod 2 = 1) then [t] else []) @
     led_flip_times ts (s\<lparr>LED_state := (py_int t mod 2 = 1)\<rparr>)"
proof -
  have "py_int t mod 2 = 0 \<or> py_int t mod 2 = 1" by presburger
  then show ?thesis by (auto simp: led_step_no_raise)
qed

text \<open>
  An iteration that completes ends with the sleep of a fifth of a second, so the
  readings of line 197 in successive iterations are at least that far apart.
\<close>

lemma main_iter_ends_with_sleep:
  assumes "snd (main_iter e s) = Inr s'"
  shows "\<exists>cs. fst (main_iter e s) = cs @ [Sleep (1 / 5)]"
proof -
  obtain c1 r1 where l: "led_step (raises e) (t_led e) s = (c1, r1)"
    by (cases "led_step (raises e) (t_led e) s")
  show ?thesis
  proof (cases r1)
    case (Inl x)
    with assms l show ?thesis by (simp add: main_iter_def then_run_simps)
  next
    case (Inr s1)
    obtain c2 r2 where d: "display_step e (s1\<lparr>last_second := py_int (t_sec e - disp_timer s1)\<rparr>)
        = (c2, r2)"
      by (cases "display_step e (s1\<lparr>last_second := py_int (t_sec e - disp_timer s1)\<rparr>)")
    show ?thesis
    proof (cases r2)
      case (Inl x)
      with assms l Inr d show ?thesis
        by (auto simp: main_iter_def Let_def run_defs split: if_splits)
    next
      case r: (Inr a)
      with l Inr d show ?thesis
        by (auto simp: main_iter_def Let_def run_defs)
    qed
  qed
qed

lemma paced_last: "paced t ts \<Longrightarrow> t \<le> last (t # ts)"
proof (induction ts arbitrary: t)
  case Nil
  show ?case by simp
next
  case (Cons u us)
  then have "t \<le> u" and "u \<le> last (u # us)" by simp_all
  then show ?case by simp
qed

lemma led_window_count:
  assumes "0 \<le> t0" and "paced t0 ts" and "LED_state s = (\<lfloor>t0\<rfloor> mod 2 = 1)"
  shows "int (length (filter (\<lambda>x. real_of_int T \<le> x \<and> x < real_of_int T + 2)
                         (led_flip_times ts s))) =
         max 0 (min \<lfloor>last (t0 # ts)\<rfloor> (T + 1) - max \<lfloor>t0\<rfloor> (T - 1))"
  using assms
proof (induction ts arbitrary: t0 s)
  case Nil
  show ?case by simp
next
  case (Cons u us)
  from Cons.prems have tu: "t0 \<le> u" "u - t0 < 1" and pu: "paced u us"
    by simp_all
  from tu Cons.prems(1) have u0: "0 \<le> u" by simp
  then have pi: "py_int u = \<lfloor>u\<rfloor>" by (simp add: py_int_def)
  have lo: "\<lfloor>t0\<rfloor> \<le> \<lfloor>u\<rfloor>" using tu(1) by (rule floor_mono)
  have "u \<le> t0 + 1" using tu(2) by simp
  then have "\<lfloor>u\<rfloor> \<le> \<lfloor>t0 + 1\<rfloor>" by (rule floor_mono)
  then have hi: "\<lfloor>u\<rfloor> \<le> \<lfloor>t0\<rfloor> + 1" by simp
  have "u \<le> last (u # us)" using pu by (rule paced_last)
  then have la: "\<lfloor>u\<rfloor> \<le> \<lfloor>last (u # us)\<rfloor>" by (rule floor_mono)
  have IH: "int (length (filter (\<lambda>x. real_of_int T \<le> x \<and> x < real_of_int T + 2)
        (led_flip_times us (s\<lparr>LED_state := (\<lfloor>u\<rfloor> mod 2 = 1)\<rparr>)))) =
      max 0 (min \<lfloor>last (u # us)\<rfloor> (T + 1) - max \<lfloor>u\<rfloor> (T - 1))"
    by (rule Cons.IH [OF u0 pu]) simp
  have flip: "(LED_state s \<noteq> (\<lfloor>u\<rfloor> mod 2 = 1)) = (\<lfloor>u\<rfloor> = \<lfloor>t0\<rfloor> + 1)"
    using lo hi Cons.prems(3) by presburger
  have w1: "(real_of_int T \<le> u) = (T \<le> \<lfloor>u\<rfloor>)" by (simp add: le_floor_iff)
  have w2: "(u < real_of_int T + 2) = (\<lfloor>u\<rfloor> < T + 2)"
    using floor_less_iff [of u "T + 2"] by simp
  have "int (length (filter (\<lambda>x. real_of_int T \<le> x \<and> x < real_of_int T + 2)
        (led_flip_times (u # us) s))) =
      (if \<lfloor>u\<rfloor> = \<lfloor>t0\<rfloor> + 1 \<and> T \<le> \<lfloor>u\<rfloor> \<and> \<lfloor>u\<rfloor> < T + 2 then 1 else 0) +
      max 0 (min \<lfloor>last (u # us)\<rfloor> (T + 1) - max \<lfloor>u\<rfloor> (T - 1))"
    unfolding led_flip_times_Cons pi using IH flip w1 w2 by simp
  also have "\<dots> = max 0 (min \<lfloor>last (u # us)\<rfloor> (T + 1) - max \<lfloor>t0\<rfloor> (T - 1))"
    using lo hi la by auto
  finally show ?case by simp
qed

lemma flips_in_aligned_window:
  fixes T :: int
  assumes "0 \<le> t1" and "t1 < real_of_int T" and "paced t1 ts"
    and "real_of_int T + 2 \<le> last (t1 # ts)"
  shows "flips_in_window (real_of_int T) (t1 # ts) s = 2"
proof -
  have pi: "py_int t1 = \<lfloor>t1\<rfloor>" using assms(1) by (simp add: py_int_def)
  have f1: "\<lfloor>t1\<rfloor> \<le> T - 1"
    using assms(2) floor_less_iff [of t1 T] by simp
  have "real_of_int (T + 2) \<le> last (t1 # ts)" using assms(4) by simp
  then have fl: "T + 2 \<le> \<lfloor>last (t1 # ts)\<rfloor>" by (simp only: le_floor_iff)
  let ?s1 = "s\<lparr>LED_state := (\<lfloor>t1\<rfloor> mod 2 = 1)\<rparr>"
  have "int (length (filter (\<lambda>x. real_of_int T \<le> x \<and> x < real_of_int T + 2)
                         (led_flip_times ts ?s1))) =
         max 0 (min \<lfloor>last (t1 # ts)\<rfloor> (T + 1) - max \<lfloor>t1\<rfloor> (T - 1))"
    by (rule led_window_count [OF assms(1,3)]) simp
  also have "\<dots> = 2" using f1 fl by simp
  finally have len: "length (filter (\<lambda>x. real_of_int T \<le> x \<and> x < real_of_int T + 2)
                         (led_flip_times ts ?s1)) = 2" by simp
  have "flips_in_window (real_of_int T) (t1 # ts) s =
      length (filter (\<lambda>x. real_of_int T \<le> x \<and> x < real_of_int T + 2) (led_flip_times ts ?s1))"
    unfolding flips_in_window_def led_flip_times_Cons pi using assms(2) by simp
  with len show ?thesis by simp
qed

text \<open>
  Claim C4, as the script has it. With the GPIO call not raising, \<open>LED_state\<close> flips in
  an iteration if and only if the parity of the integer part of the clock reading differs
  from it. So, for clock readings that are not negative, of two successive iterations
  the second flips exactly when the parity of the whole second has changed since the
  first, not once per iteration. Over a two-second window that starts on a whole second
  \<open>T\<close>, in a run of iterations that has an iteration before \<open>T\<close>, goes on to \<open>T + 2\<close> or
  later, and has each reading at least a fifth of a second (the sleep) and less than a
  second after the one before, exactly two flips occur.
\<close>

theorem led_flips:
  "(\<not> r (SetLineValue LED_PIN (\<not> LED_state s)) \<longrightarrow>
      snd (led_step r t s) =
        Inr (s\<lparr>LED_state := (if (if LED_state s then 1 else 0) \<noteq> py_int t mod 2
                               then \<not> LED_state s else LED_state s)\<rparr>))
   \<and> (0 \<le> t \<and> 0 \<le> u \<longrightarrow>
        led_flip_times [t, u] s =
          (if LED_state s \<noteq> (\<lfloor>t\<rfloor> mod 2 = 1) then [t] else []) @
          (if \<lfloor>u\<rfloor> mod 2 \<noteq> \<lfloor>t\<rfloor> mod 2 then [u] else []))
   \<and> (0 \<le> t1 \<and> t1 < real_of_int T \<and> paced t1 ts \<and> real_of_int T + 2 \<le> last (t1 # ts) \<longrightarrow>
        flips_in_window (real_of_int T) (t1 # ts) s = 2)"
proof -
  have a: "snd (led_step r t s) =
        Inr (s\<lparr>LED_state := (if (if LED_state s then 1 else 0) \<noteq> py_int t mod 2
                               then \<not> LED_state s else LED_state s)\<rparr>)"
    if "\<not> r (SetLineValue LED_PIN (\<not> LED_state s))"
    using that by (simp add: led_step_eq)
  have b: "led_flip_times [t, u] s =
          (if LED_state s \<noteq> (\<lfloor>t\<rfloor> mod 2 = 1) then [t] else []) @
          (if \<lfloor>u\<rfloor> mod 2 \<noteq> \<lfloor>t\<rfloor> mod 2 then [u] else [])"
    if h: "0 \<le> t \<and> 0 \<le> u"
  proof -
    from h have pt: "py_int t = \<lfloor>t\<rfloor>" and pu: "py_int u = \<lfloor>u\<rfloor>"
      by (simp_all add: py_int_def)
    have "((\<lfloor>t\<rfloor> mod 2 = 1) \<noteq> (\<lfloor>u\<rfloor> mod 2 = 1)) = (\<lfloor>u\<rfloor> mod 2 \<noteq> \<lfloor>t\<rfloor> mod 2)"
      by presburger
    then show ?thesis
      unfolding led_flip_times_Cons pt pu by simp
  qed
  have c: "flips_in_window (real_of_int T) (t1 # ts) s = 2"
    if h: "0 \<le> t1 \<and> t1 < real_of_int T \<and> paced t1 ts \<and> real_of_int T + 2 \<le> last (t1 # ts)"
    using h by (intro flips_in_aligned_window) simp_all
  from a b c show ?thesis by blast
qed

theorem led_flips_witness:
  "snd (led_step no_raise (21 / 2) init_state) = Inr init_state
   \<and> snd (led_step no_raise (23 / 2) init_state) = Inr (init_state\<lparr>LED_state := True\<rparr>)
   \<and> led_flip_times [21 / 2, 43 / 4] init_state = []
   \<and> led_flip_times [109 / 10, 111 / 10] init_state = [111 / 10]
   \<and> flips_in_window (real_of_int 10)
        [973 / 100, 994 / 100, 1015 / 100, 1036 / 100, 1057 / 100, 1078 / 100, 1099 / 100,
         1120 / 100, 1141 / 100, 1162 / 100, 1183 / 100, 1204 / 100] init_state = 2"
proof -
  have n: "\<not> no_raise (SetLineValue LED_PIN (\<not> LED_state init_state))"
    by (simp add: no_raise_def)
  have a: "snd (led_step no_raise (21 / 2) init_state) = Inr init_state"
    using led_flips [of no_raise init_state "21 / 2"] n
    by (simp add: py_int_def init_state_def)
  have b: "snd (led_step no_raise (23 / 2) init_state) = Inr (init_state\<lparr>LED_state := True\<rparr>)"
    using led_flips [of no_raise init_state "23 / 2"] n
    by (simp add: py_int_def init_state_def)
  have c: "led_flip_times [21 / 2, 43 / 4] init_state = []"
    using led_flips [of no_raise init_state "21 / 2" "43 / 4"]
    by (simp add: init_state_def)
  have d: "led_flip_times [109 / 10, 111 / 10] init_state = [111 / 10]"
    using led_flips [of no_raise init_state "109 / 10" "111 / 10"]
    by (simp add: init_state_def)
  have e: "flips_in_window (real_of_int 10)
        [973 / 100, 994 / 100, 1015 / 100, 1036 / 100, 1057 / 100, 1078 / 100, 1099 / 100,
         1120 / 100, 1141 / 100, 1162 / 100, 1183 / 100, 1204 / 100] init_state = 2"
    using led_flips [of no_raise init_state 0 0 "973 / 100"  10
        "[994 / 100, 1015 / 100, 1036 / 100, 1057 / 100, 1078 / 100, 1099 / 100,
         1120 / 100, 1141 / 100, 1162 / 100, 1183 / 100, 1204 / 100]"]
    by simp
  from a b c d e show ?thesis by simp
qed

text \<open>
  The claim as stated fails. In a run at exactly 5 Hz, the closest pace the sleep allows,
  whose first iteration is at 10.05, the window of two seconds from 10 has one flip (at
  11.05): the LED starts off, which is the parity of second 10. In a run in which every
  iteration takes 0.21 seconds, the window of two seconds from 10.11, which does not
  start on a whole second, has three flips (at 10.11, 11.16 and 12.00).
\<close>

theorem led_window_counterexample:
  "paced (201 / 20) [205 / 20, 209 / 20, 213 / 20, 217 / 20, 221 / 20, 225 / 20, 229 / 20,
          233 / 20, 237 / 20, 241 / 20]
   \<and> flips_in_window 10 [201 / 20, 205 / 20, 209 / 20, 213 / 20, 217 / 20, 221 / 20,
          225 / 20, 229 / 20, 233 / 20, 237 / 20, 241 / 20] init_state = 1
   \<and> paced (990 / 100) [1011 / 100, 1032 / 100, 1053 / 100, 1074 / 100, 1095 / 100,
          1116 / 100, 1137 / 100, 1158 / 100, 1179 / 100, 1200 / 100, 1221 / 100]
   \<and> flips_in_window (1011 / 100) [990 / 100, 1011 / 100, 1032 / 100, 1053 / 100,
          1074 / 100, 1095 / 100, 1116 / 100, 1137 / 100, 1158 / 100, 1179 / 100,
          1200 / 100, 1221 / 100] init_state = 3"
  by (simp add: flips_in_window_def led_flip_times_Cons py_int_def init_state_def
      del: led_flip_times.simps(2))

end
